theory Spec2Isabelle
  imports Main "HOL-Library.AList" "HOL-Library.Sublist"
begin

section \<open>Data shared by both source files\<close>

text \<open>
  A Python \<^verbatim>\<open>dict\<close> with string keys is an association list: the order of the entries is
  the insertion order that \<^verbatim>\<open>json.dump\<close> writes, \<^verbatim>\<open>k in d\<close> is membership among the keys,
  \<^verbatim>\<open>d.get(k)\<close> is \<open>map_of d k\<close> and \<^verbatim>\<open>del d[k]\<close> drops the entry and keeps the others in
  place. A metadata document is such a dict; the type of its values is left open in
  \<^verbatim>\<open>compress.py\<close>, which never looks at them.
\<close>

type_synonym 'v pydict = "(string \<times> 'v) list"

definition has_key :: "string \<Rightarrow> 'v pydict \<Rightarrow> bool" where
  "has_key k d = (k \<in> fst ` set d)"

definition del_key :: "string \<Rightarrow> 'v pydict \<Rightarrow> 'v pydict" where
  "del_key k d = AList.delete k d"

section \<open>\<^verbatim>\<open>faiss_index/compress.py\<close>\<close>

text \<open>
  The loop of lines 31 to 35: \<^verbatim>\<open>modified_count\<close> is threaded through, each document is
  replaced in its position by what the in-place \<^verbatim>\<open>del\<close> leaves of it.
\<close>

fun strip_loop :: "nat \<Rightarrow> 'v pydict list \<Rightarrow> 'v pydict list \<times> nat" where
  "strip_loop modified_count [] = ([], modified_count)"
| "strip_loop modified_count (doc # rest) =
     (if has_key ''embedding'' doc
      then (case strip_loop (modified_count + 1) rest of
              (rest', n) \<Rightarrow> (del_key ''embedding'' doc # rest', n))
      else (case strip_loop modified_count rest of
              (rest', n) \<Rightarrow> (doc # rest', n)))"

text \<open>
  What reading the input file gives (lines 17 to 29) and what the run ends with. Every
  \<^verbatim>\<open>except\<close> branch of the source ends in \<^verbatim>\<open>sys.exit(1)\<close>; a run that reaches the end has
  written the stripped metadata and printed the number of modified documents. The failure
  of the write (lines 41 to 58) is an input of the model: \<open>Some e\<close> is the exception raised
  there.
\<close>

datatype 'v load_result =
    FileNotFoundError
  | JSONDecodeError string
  | OtherLoadError string
  | Loaded "'v pydict list"

datatype 'v run_result =
    SysExit nat
  | Saved "'v pydict list" nat

definition remove_embeddings_from_metadata_json ::
    "'v load_result \<Rightarrow> string option \<Rightarrow> 'v run_result" where
  "remove_embeddings_from_metadata_json input save_error =
     (case input of
        FileNotFoundError \<Rightarrow> SysExit 1
      | JSONDecodeError e \<Rightarrow> SysExit 1
      | OtherLoadError e \<Rightarrow> SysExit 1
      | Loaded metadata \<Rightarrow>
          (case strip_loop 0 metadata of
             (metadata', modified_count) \<Rightarrow>
               (case save_error of
                  Some e \<Rightarrow> SysExit 1
                | None \<Rightarrow> Saved metadata' modified_count)))"

section \<open>\<^verbatim>\<open>api/app.py\<close>\<close>

subsection \<open>Strings\<close>

text \<open>
  A Python \<^verbatim>\<open>str\<close> is a list of characters, one \<open>char\<close> per code point (code points below
  256). \<open>isspace\<close> is \<^verbatim>\<open>str.isspace\<close> on these, \<open>strip\<close> is \<^verbatim>\<open>s.strip()\<close>,
  \<open>replace_newlines\<close> is \<^verbatim>\<open>s.replace("\n", " ")\<close> and \<open>rsplit_space_head\<close> is
  \<^verbatim>\<open>s.rsplit(' ', 1)[0]\<close>: the part before the last space, or all of \<open>s\<close> when it has no
  space.
\<close>

definition isspace :: "char \<Rightarrow> bool" where
  "isspace c = (of_char c \<in> {9, 10, 11, 12, 13, 28, 29, 30, 31, 32, 133, 160 :: nat})"

definition strip :: "string \<Rightarrow> string" where
  "strip s = rev (dropWhile isspace (rev (dropWhile isspace s)))"

definition replace_newlines :: "string \<Rightarrow> string" where
  "replace_newlines s = map (\<lambda>c. if c = CHR 0x0A then CHR '' '' else c) s"

definition rsplit_space_head :: "string \<Rightarrow> string" where
  "rsplit_space_head s =
     (if CHR '' '' \<in> set s
      then rev (tl (dropWhile (\<lambda>c. c \<noteq> CHR '' '') (rev s)))
      else s)"

subsection \<open>Requests, responses and the functions imported from \<^verbatim>\<open>rag.py\<close>\<close>

text \<open>
  The request as the handler reads it: \<^verbatim>\<open>request.is_json\<close> (the content type), and what
  \<^verbatim>\<open>request.get_json()\<close> does with the body. A body that does not parse makes it raise
  werkzeug's \<^verbatim>\<open>BadRequest\<close>; a body that parses to a list, a string, a number, a boolean
  or \<^verbatim>\<open>null\<close> is returned as a value without a \<^verbatim>\<open>get\<close> method; a body that parses to
  an object is a dict, of which the handler reads \<^verbatim>\<open>data.get("question")\<close> and
  \<^verbatim>\<open>data.get("image")\<close>: strings when present (the documented input
  \<^verbatim>\<open>{"question": "...", "image": "base64_string_or_url_string"}\<close>), \<open>None\<close> when the key
  is missing.
\<close>

datatype json_data =
    InvalidJson
  | NotADict
  | Dict "string option" "string option"

record request =
  req_is_json :: bool
  req_get_json :: json_data

text \<open>The two fields of an object body.\<close>

definition req_question :: "request \<Rightarrow> string option" where
  "req_question req =
     (case req_get_json req of Dict question image_base64_data \<Rightarrow> question | _ \<Rightarrow> None)"

definition req_image :: "request \<Rightarrow> string option" where
  "req_image req =
     (case req_get_json req of
        Dict question image_base64_data \<Rightarrow> image_base64_data
      | _ \<Rightarrow> None)"

text \<open>
  A retrieved document is a dict whose \<^verbatim>\<open>url\<close> and \<^verbatim>\<open>content\<close> are text; a link is the
  dict \<^verbatim>\<open>{"url": ..., "text": ...}\<close>. A response is the JSON body given to \<^verbatim>\<open>jsonify\<close>
  with the status code, or the error page that Flask itself makes. An exception that no
  \<^verbatim>\<open>except\<close> of the handler catches leaves the handler (\<open>Inl\<close>): the \<^verbatim>\<open>BadRequest\<close> of
  \<^verbatim>\<open>get_json\<close>, the \<^verbatim>\<open>AttributeError\<close> of \<^verbatim>\<open>data.get\<close> on a value that is no dict, the
  \<^verbatim>\<open>KeyError\<close> of \<^verbatim>\<open>doc["url"]\<close>.
\<close>

type_synonym document = "string pydict"

record link =
  link_url :: string
  link_text :: string

datatype body =
    ErrorBody string
  | AnswerBody string "link list"
  | FrameworkErrorPage

type_synonym response = "body \<times> nat"

datatype unhandled =
    KeyError string
  | AttributeError string
  | BadRequest

record answer_data =
  ad_answer :: "string option"
  ad_links :: "link list"

text \<open>
  \<^verbatim>\<open>rag.py\<close> is not part of the sources at hand, so the six functions the handler calls
  are parameters. Those called inside a \<^verbatim>\<open>try\<close> return \<open>Inl e\<close> when they raise, \<open>e\<close>
  being \<^verbatim>\<open>str\<close> of the exception (what the handler formats with \<^verbatim>\<open>{e}\<close>).
  \<^verbatim>\<open>clean_json_response\<close> returns the answer dict or a falsy value (\<open>None\<close>); the handler
  takes whatever links it carries. The types of an embedding, of the index and of the
  prompt messages are left open.
\<close>

record ('e, 'i, 'p) rag =
  get_embedding :: "string \<Rightarrow> string + 'e"
  retrieve_and_prioritize_documents ::
    "'e \<Rightarrow> 'i \<Rightarrow> document list \<Rightarrow> nat \<Rightarrow> nat \<Rightarrow> string + document list"
  build_prompt :: "string \<Rightarrow> document list \<Rightarrow> string option \<Rightarrow> string + 'p"
  query_chat_completion :: "'p \<Rightarrow> string + string"
  clean_json_response :: "string \<Rightarrow> document list \<Rightarrow> answer_data option"
  clean_content_for_prompt :: "string \<Rightarrow> string"

subsection \<open>The handler \<^verbatim>\<open>answer_question_api\<close>\<close>

text \<open>Lines 46 to 59: the image reference handed to \<^verbatim>\<open>build_prompt\<close>.\<close>

definition image_url_for_llm :: "string option \<Rightarrow> string option" where
  "image_url_for_llm image_base64_data =
     (case image_base64_data of
        None \<Rightarrow> None
      | Some s \<Rightarrow>
          if s = [] then None
          else
            let mime_type =
              (if prefix ''/9j/'' s then ''image/jpeg''
               else if prefix ''iVBORw0KGgo'' s then ''image/png''
               else if prefix ''UklGR'' s then ''image/webp''
               else ''application/octet-stream'')
            in if prefix ''http://'' s \<or> prefix ''https://'' s
               then Some s
               else Some (''data:'' @ mime_type @ '';base64,'' @ s))"

text \<open>Line 97: the snippet of a cleaned content string.\<close>

definition snippet_of :: "string \<Rightarrow> string" where
  "snippet_of cleaned_content_snippet =
     (if length cleaned_content_snippet > 150
      then rsplit_space_head (take 150 cleaned_content_snippet) @ ''...''
      else cleaned_content_snippet)"

text \<open>
  Lines 95 to 98: the loop over the first documents. \<^verbatim>\<open>doc.get("content", "")\<close> never
  raises, \<^verbatim>\<open>doc["url"]\<close> raises \<^verbatim>\<open>KeyError\<close> on a document without that key.
\<close>

fun fallback_loop ::
    "(string \<Rightarrow> string) \<Rightarrow> document list \<Rightarrow> link list \<Rightarrow> unhandled + link list" where
  "fallback_loop clean [] fallback_links = Inr fallback_links"
| "fallback_loop clean (doc # rest) fallback_links =
     (let cleaned_content_snippet =
            clean (case map_of doc ''content'' of None \<Rightarrow> [] | Some c \<Rightarrow> c);
          snippet = snippet_of cleaned_content_snippet
      in case map_of doc ''url'' of
           None \<Rightarrow> Inl (KeyError ''url'')
         | Some u \<Rightarrow>
             fallback_loop clean rest
               (fallback_links @ [\<lparr>link_url = u, link_text = snippet\<rparr>]))"

definition fallback_header :: string where
  "fallback_header =
     ''I couldn't generate a specific answer from the provided context. '' @
     ''However, here's some potentially relevant information:'' @ [CHR 0x0A]"

definition link_line :: "link \<Rightarrow> string" where
  "link_line l =
     ''- '' @ [CHR 0x22] @ link_text l @ [CHR 0x22] @
     '' (Source: '' @ link_url l @ '')'' @ [CHR 0x0A]"

text \<open>Lines 100 to 104.\<close>

definition fallback_answer_text :: "link list \<Rightarrow> string" where
  "fallback_answer_text fallback_links =
     (if fallback_links \<noteq> []
      then fallback_header @ concat (map link_line fallback_links)
      else fallback_header @ ''No relevant specific snippets found to cite.'')"

text \<open>Lines 91 to 106: the response built when the model output has no usable answer.\<close>

definition fallback_response ::
    "(string \<Rightarrow> string) \<Rightarrow> document list \<Rightarrow> unhandled + response" where
  "fallback_response clean relevant_docs =
     (case fallback_loop clean (take (min 2 (length relevant_docs)) relevant_docs) [] of
        Inl e \<Rightarrow> Inl e
      | Inr fallback_links \<Rightarrow>
          Inr (AnswerBody (strip (fallback_answer_text fallback_links)) fallback_links, 200))"

text \<open>
  The handler, lines 32 to 110, with the module globals \<^verbatim>\<open>rag_index\<close> and
  \<^verbatim>\<open>rag_metadata\<close> as arguments (\<open>None\<close> until the startup block has set them).
\<close>

definition answer_question_api ::
    "('e, 'i, 'p) rag \<Rightarrow> 'i option \<Rightarrow> document list option \<Rightarrow> request
       \<Rightarrow> unhandled + response" where
  "answer_question_api rag rag_index rag_metadata req =
     (if \<not> req_is_json req then Inr (ErrorBody ''Request must be JSON'', 400)
      else case req_get_json req of
        InvalidJson \<Rightarrow> Inl BadRequest
      | NotADict \<Rightarrow> Inl (AttributeError ''get'')
      | Dict question_opt image_base64_data \<Rightarrow>
       (case question_opt of
        None \<Rightarrow> Inr (ErrorBody ''Missing 'question' in request body'', 400)
      | Some question \<Rightarrow>
        if question = [] then Inr (ErrorBody ''Missing 'question' in request body'', 400)
        else case rag_index of
          None \<Rightarrow>
            Inr (AnswerBody ''Server is still initializing. Please try again in a moment.'' [],
                 503)
        | Some idx \<Rightarrow>
          (case rag_metadata of
            None \<Rightarrow>
              Inr (AnswerBody ''Server is still initializing. Please try again in a moment.'' [],
                   503)
          | Some metadata \<Rightarrow>
            (case get_embedding rag question of
              Inl e \<Rightarrow>
                Inr (AnswerBody (''Error generating question embedding: '' @ e) [], 500)
            | Inr q_embed \<Rightarrow>
              (case retrieve_and_prioritize_documents rag q_embed idx metadata 750 5 of
                Inl e \<Rightarrow>
                  Inr (AnswerBody (''Error retrieving relevant information: '' @ e) [], 500)
              | Inr relevant_docs \<Rightarrow>
                if relevant_docs = []
                then Inr (AnswerBody
                  ''Sorry, I couldn't find any relevant information in the knowledge base.'' [],
                  200)
                else
                  (case build_prompt rag question relevant_docs
                          (image_url_for_llm image_base64_data) of
                    Inl e \<Rightarrow>
                      Inr (AnswerBody (''Error communicating with AI model: '' @ e) [], 500)
                  | Inr messages_for_llm \<Rightarrow>
                    (case query_chat_completion rag messages_for_llm of
                      Inl e \<Rightarrow>
                        Inr (AnswerBody (''Error communicating with AI model: '' @ e) [], 500)
                    | Inr raw_llm_response \<Rightarrow>
                      (case clean_json_response rag raw_llm_response relevant_docs of
                        None \<Rightarrow>
                          fallback_response (clean_content_for_prompt rag) relevant_docs
                      | Some answer_data \<Rightarrow>
                        (case ad_answer answer_data of
                          None \<Rightarrow>
                            fallback_response (clean_content_for_prompt rag) relevant_docs
                        | Some a \<Rightarrow>
                          if a = []
                          then fallback_response (clean_content_for_prompt rag) relevant_docs
                          else Inr (AnswerBody (strip (replace_newlines a))
                                      (ad_links answer_data), 200))))))))))"

text \<open>
  Lines 113 to 118, run once when the module is imported: the globals are set from what
  \<^verbatim>\<open>load_index_and_metadata\<close> returns, and an exception there ends the process with
  \<^verbatim>\<open>sys.exit(1)\<close>.
\<close>

datatype 'i process =
    Exited nat
  | Serving "'i option" "document list option"


text \<open>
  What Flask does with a request routed to the handler (its part, as documented for
  \<^verbatim>\<open>Flask.handle_user_exception\<close> and \<^verbatim>\<open>Flask.handle_exception\<close>; not code of this
  repository): the response the handler returns is sent; an \<^verbatim>\<open>HTTPException\<close> that
  leaves the handler, here \<^verbatim>\<open>BadRequest\<close>, is sent as its own error page with status 400;
  any other exception that leaves it is sent as the error page with status 500. The
  globals are read by the handler and never assigned, and the process goes on serving. A
  process that has exited answers nothing.
\<close>

definition serve ::
    "('e, 'i, 'p) rag \<Rightarrow> 'i process \<Rightarrow> request \<Rightarrow> 'i process \<times> response option" where
  "serve rag p req =
     (case p of
        Exited n \<Rightarrow> (Exited n, None)
      | Serving rag_index rag_metadata \<Rightarrow>
          (Serving rag_index rag_metadata,
           Some (case answer_question_api rag rag_index rag_metadata req of
                   Inr r \<Rightarrow> r
                 | Inl BadRequest \<Rightarrow> (FrameworkErrorPage, 400)
                 | Inl (AttributeError a) \<Rightarrow> (FrameworkErrorPage, 500)
                 | Inl (KeyError k) \<Rightarrow> (FrameworkErrorPage, 500))))"

subsection \<open>\<^verbatim>\<open>clean_json_response\<close>, from the specification\<close>

text \<open>
  Modelled from the spec: \<^verbatim>\<open>clean_json_response\<close> of \<^verbatim>\<open>rag.py\<close>, which is not among the
  sources. Section 4.6 of the specification: when the model supplied fewer than two
  links, links are added from the ranked documents, in their order, skipping a document
  whose URL is already cited, until there are two, each with a generated snippet of the
  content as its text; when it supplied more, the first two are kept; links to URLs that
  are not among the ranked documents are kept as they are. \<open>snip\<close> generates the snippet.
\<close>

fun pad_links :: "(document \<Rightarrow> string) \<Rightarrow> link list \<Rightarrow> document list \<Rightarrow> link list" where
  "pad_links snip links [] = links"
| "pad_links snip links (doc # rest) =
     (if 2 \<le> length links then links
      else case map_of doc ''url'' of
             None \<Rightarrow> pad_links snip links rest
           | Some u \<Rightarrow>
               if u \<in> set (map link_url links) then pad_links snip links rest
               else pad_links snip (links @ [\<lparr>link_url = u, link_text = snip doc\<rparr>]) rest)"

definition enforce_links ::
    "(document \<Rightarrow> string) \<Rightarrow> link list \<Rightarrow> document list \<Rightarrow> link list" where
  "enforce_links snip links ranked_docs =
     (if 2 < length links then take 2 links else pad_links snip links ranked_docs)"

text \<open>
  Modelled from the spec: the whole of \<^verbatim>\<open>clean_json_response\<close> (section 4.6). \<open>parse\<close>
  stands for the extraction of the first well-formed JSON object from the raw text,
  \<open>None\<close> when there is none. Without a parsed object, or without a non-empty \<^verbatim>\<open>answer\<close>
  in it, nothing usable is returned and the handler's fallback (lines 90 to 106) builds
  the answer; otherwise the answer is returned with the links enforced.
\<close>

definition spec_clean_json_response ::
    "(string \<Rightarrow> answer_data option) \<Rightarrow> (document \<Rightarrow> string)
       \<Rightarrow> string \<Rightarrow> document list \<Rightarrow> answer_data option" where
  "spec_clean_json_response parse snip raw_text ranked_docs =
     (case parse raw_text of
        None \<Rightarrow> None
      | Some parsed \<Rightarrow>
          (case ad_answer parsed of
             None \<Rightarrow> None
           | Some a \<Rightarrow>
               if a = [] then None
               else Some \<lparr>ad_answer = Some a,
                          ad_links = enforce_links snip (ad_links parsed) ranked_docs\<rparr>))"

subsection \<open>Reading a result, and sample inputs\<close>

definition response_status :: "unhandled + response \<Rightarrow> nat option" where
  "response_status r = (case r of Inl e \<Rightarrow> None | Inr (b, st) \<Rightarrow> Some st)"

definition response_links :: "unhandled + response \<Rightarrow> link list" where
  "response_links r = (case r of Inr (AnswerBody a ls, st) \<Rightarrow> ls | _ \<Rightarrow> [])"

definition response_answer :: "unhandled + response \<Rightarrow> string" where
  "response_answer r = (case r of Inr (AnswerBody a ls, st) \<Rightarrow> a | _ \<Rightarrow> [])"

text \<open>\<open>occurs_in e s\<close>: the text \<open>e\<close> occurs in \<open>s\<close> (Python's \<^verbatim>\<open>e in s\<close>).\<close>

fun occurs_in :: "string \<Rightarrow> string \<Rightarrow> bool" where
  "occurs_in e [] = (e = [])"
| "occurs_in e (c # cs) = (prefix e (c # cs) \<or> occurs_in e cs)"

text \<open>
  \<open>splits_mid_word content kept\<close>: \<open>kept\<close> is a proper prefix of \<open>content\<close> that ends
  inside a word, its last character and the character after it both being no whitespace.
\<close>

definition splits_mid_word :: "string \<Rightarrow> string \<Rightarrow> bool" where
  "splits_mid_word content kept =
     (kept \<noteq> [] \<and> length kept < length content \<and> prefix kept content
      \<and> \<not> isspace (last kept) \<and> \<not> isspace (content ! length kept))"

definition demo_request :: request where
  "demo_request =
     \<lparr>req_is_json = True, req_get_json = Dict (Some ''What is FAISS?'') None\<rparr>"

definition demo_docs :: "document list" where
  "demo_docs =
     [[(''url'', ''https://example.com/a''), (''content'', ''alpha'')],
      [(''url'', ''https://example.com/b''), (''content'', ''beta'')],
      [(''url'', ''https://example.com/c''), (''content'', ''gamma'')]]"

text \<open>
  A stand-in for \<^verbatim>\<open>rag.py\<close>: retrieval returns the first \<^verbatim>\<open>top_k_final\<close> documents of
  the metadata, the model answers with text that is no JSON, and \<^verbatim>\<open>clean_json_response\<close>
  returns a falsy value for it.
\<close>

definition demo_rag :: "(nat list, unit, string) rag" where
  "demo_rag =
     \<lparr>get_embedding = (\<lambda>question. Inr [length question]),
      retrieve_and_prioritize_documents =
        (\<lambda>q_embed idx metadata top_k_initial top_k_final. Inr (take top_k_final metadata)),
      build_prompt = (\<lambda>question docs image_url. Inr question),
      query_chat_completion = (\<lambda>messages. Inr ''not json''),
      clean_json_response = (\<lambda>raw docs. None),
      clean_content_for_prompt = (\<lambda>content. content)\<rparr>"

definition demo_rag_embedding_down :: "(nat list, unit, string) rag" where
  "demo_rag_embedding_down =
     demo_rag\<lparr>get_embedding := (\<lambda>question. Inl ''Connection refused: 10.0.0.5:8443'')\<rparr>"

definition demo_rag_retrieval_down :: "(nat list, unit, string) rag" where
  "demo_rag_retrieval_down =
     demo_rag\<lparr>retrieve_and_prioritize_documents :=
       (\<lambda>q_embed idx metadata top_k_initial top_k_final. Inl ''index dimension mismatch'')\<rparr>"

definition demo_rag_model_down :: "(nat list, unit, string) rag" where
  "demo_rag_model_down =
     demo_rag\<lparr>query_chat_completion := (\<lambda>messages. Inl ''401 Unauthorized'')\<rparr>"

text \<open>
  A stand-in whose model output parses to an answer without links, with
  \<^verbatim>\<open>clean_json_response\<close> as the specification words it.
\<close>

definition demo_rag_parsed :: "(nat list, unit, string) rag" where
  "demo_rag_parsed =
     demo_rag\<lparr>clean_json_response :=
       spec_clean_json_response
         (\<lambda>raw. Some \<lparr>ad_answer = Some ''FAISS is a similarity search library.'',
                        ad_links = []\<rparr>)
         (\<lambda>doc. snippet_of (case map_of doc ''content'' of None \<Rightarrow> [] | Some c \<Rightarrow> c))\<rparr>"

definition list_body_request :: request where
  "list_body_request = \<lparr>req_is_json = True, req_get_json = NotADict\<rparr>"


section \<open>Properties of \<^verbatim>\<open>compress.py\<close>\<close>

lemma del_key_absent: "\<not> has_key k d \<Longrightarrow> del_key k d = d"
  by (simp add: has_key_def del_key_def)

lemma strip_loop_eq:
  "strip_loop c ms =
     (map (del_key ''embedding'') ms, c + length (filter (has_key ''embedding'') ms))"
  by (induction ms arbitrary: c) (simp_all add: del_key_absent)

lemma strip_loop_docs: "fst (strip_loop c ms) = map (del_key ''embedding'') ms"
  by (simp add: strip_loop_eq)

lemma del_key_no_key: "\<not> has_key k (del_key k d)"
  by (simp add: has_key_def del_key_def delete_notin_dom)

lemma del_key_filter: "del_key k d = filter (\<lambda>kv. fst kv \<noteq> k) d"
  by (induction d) (auto simp: del_key_def)

lemma del_key_lookup: "map_of (del_key k d) = (map_of d)(k := None)"
  by (simp add: del_key_def delete_conv')

lemma strip_loop_clean:
  "\<forall>d \<in> set ms. \<not> has_key ''embedding'' d \<Longrightarrow> strip_loop c ms = (ms, c)"
  by (induction ms arbitrary: c) auto

text \<open>
  C7. When the input file loads as the metadata list \<open>ms\<close> and the write succeeds, the
  metadata written has the length of \<open>ms\<close>, and at every position the written document is
  the input document of that position without its \<^verbatim>\<open>embedding\<close> entry: the other entries
  are the same, in the same order, and every key other than \<^verbatim>\<open>embedding\<close> (so \<^verbatim>\<open>url\<close> and
  \<^verbatim>\<open>content\<close>) looks up the value it had.
\<close>

theorem remove_embeddings_frame:
  "\<exists>out n. remove_embeddings_from_metadata_json (Loaded ms) None = Saved out n
     \<and> length out = length ms
     \<and> (\<forall>i < length ms.
           out ! i = filter (\<lambda>kv. fst kv \<noteq> ''embedding'') (ms ! i)
         \<and> \<not> has_key ''embedding'' (out ! i)
         \<and> (\<forall>k. k \<noteq> ''embedding'' \<longrightarrow> map_of (out ! i) k = map_of (ms ! i) k))"
proof -
  define out where "out = map (del_key ''embedding'') ms"
  define n where "n = length (filter (has_key ''embedding'') ms)"
  have run: "remove_embeddings_from_metadata_json (Loaded ms) None = Saved out n"
    by (simp add: remove_embeddings_from_metadata_json_def strip_loop_eq out_def n_def)
  have len: "length out = length ms"
    by (simp add: out_def)
  have each: "out ! i = filter (\<lambda>kv. fst kv \<noteq> ''embedding'') (ms ! i)
      \<and> \<not> has_key ''embedding'' (out ! i)
      \<and> (\<forall>k. k \<noteq> ''embedding'' \<longrightarrow> map_of (out ! i) k = map_of (ms ! i) k)"
    if "i < length ms" for i
  proof -
    have nth: "out ! i = del_key ''embedding'' (ms ! i)"
      using that by (simp add: out_def)
    have "del_key ''embedding'' (ms ! i) = filter (\<lambda>kv. fst kv \<noteq> ''embedding'') (ms ! i)"
      by (rule del_key_filter)
    moreover have "\<not> has_key ''embedding'' (del_key ''embedding'' (ms ! i))"
      by (rule del_key_no_key)
    moreover have "\<forall>k. k \<noteq> ''embedding'' \<longrightarrow>
        map_of (del_key ''embedding'' (ms ! i)) k = map_of (ms ! i) k"
      by (simp add: del_key_lookup)
    ultimately show ?thesis unfolding nth by blast
  qed
  from run len each show ?thesis by blast
qed

theorem remove_embeddings_frame_witness:
  "remove_embeddings_from_metadata_json
     (Loaded [[(''url'', ''u1''), (''embedding'', ''0.5''), (''content'', ''c1'')],
              [(''url'', ''u2''), (''content'', ''c2'')]]) None
   = Saved [[(''url'', ''u1''), (''content'', ''c1'')],
            [(''url'', ''u2''), (''content'', ''c2'')]] 1"
proof -
  let ?ms = "[[(''url'', ''u1''), (''embedding'', ''0.5''), (''content'', ''c1'')],
              [(''url'', ''u2''), (''content'', ''c2'')]]"
  obtain out n where run: "remove_embeddings_from_metadata_json (Loaded ?ms) None = Saved out n"
    and len: "length out = length ?ms"
    and each: "\<forall>i < length ?ms. out ! i = filter (\<lambda>kv. fst kv \<noteq> ''embedding'') (?ms ! i)"
    using remove_embeddings_frame [of ?ms] by blast
  have n: "n = 1"
    using run by (simp add: remove_embeddings_from_metadata_json_def has_key_def)
  from len obtain a b where out: "out = [a, b]"
    by (cases out; cases "tl out"; cases "tl (tl out)") auto
  from each have "out ! 0 = filter (\<lambda>kv. fst kv \<noteq> ''embedding'') (?ms ! 0)"
    and "out ! 1 = filter (\<lambda>kv. fst kv \<noteq> ''embedding'') (?ms ! 1)"
    by simp_all
  with out have "out = [[(''url'', ''u1''), (''content'', ''c1'')],
                         [(''url'', ''u2''), (''content'', ''c2'')]]"
    by simp
  with run n show ?thesis by simp
qed

text \<open>
  C10. Running the stripping loop on the list it produced changes no document and counts
  zero modifications.
\<close>

theorem strip_loop_idempotent:
  "strip_loop 0 (fst (strip_loop 0 ms)) = (fst (strip_loop 0 ms), 0)"
proof -
  have "\<forall>d \<in> set (fst (strip_loop 0 ms)). \<not> has_key ''embedding'' d"
    by (auto simp: strip_loop_docs del_key_no_key)
  then show ?thesis by (rule strip_loop_clean)
qed

theorem strip_loop_idempotent_witness:
  "strip_loop 0 (fst (strip_loop 0
      [[(''url'', ''u1''), (''embedding'', ''0.5'')], [(''url'', ''u2'')]]))
   = ([[(''url'', ''u1'')], [(''url'', ''u2'')]], 0)"
  using strip_loop_idempotent
    [of "[[(''url'', ''u1''), (''embedding'', ''0.5'')], [(''url'', ''u2'')]]"]
  by (simp add: has_key_def del_key_def)

section \<open>Properties of \<^verbatim>\<open>app.py\<close>\<close>

lemma object_body:
  "req_question req = Some q \<Longrightarrow> req_get_json req = Dict (Some q) (req_image req)"
  by (cases "req_get_json req") (auto simp: req_question_def req_image_def)

text \<open>
  C4. When the request is valid, the index is loaded, the embedding succeeds and the
  retrieval returns the empty list, the handler answers with status 200, the text that no
  relevant information was found, and no links: neither an error status nor an exception.
\<close>

theorem empty_retrieval_is_success:
  assumes "req_is_json req" and "req_question req = Some q" and "q \<noteq> []"
    and "get_embedding rag q = Inr v"
    and "retrieve_and_prioritize_documents rag v idx metadata 750 5 = Inr []"
  shows "answer_question_api rag (Some idx) (Some metadata) req =
           Inr (AnswerBody
             ''Sorry, I couldn't find any relevant information in the knowledge base.'' [],
             200)"
  using assms object_body [OF assms(2)] by (simp add: answer_question_api_def)

theorem empty_retrieval_is_success_witness:
  "answer_question_api demo_rag (Some ()) (Some []) demo_request =
     Inr (AnswerBody
       ''Sorry, I couldn't find any relevant information in the knowledge base.'' [],
       200)"
  using empty_retrieval_is_success
    [of demo_request "''What is FAISS?''" demo_rag "[14]" "()" "[]"]
  by (simp add: demo_rag_def demo_request_def req_question_def)


text \<open>
  C9. The code does not do what the claim says for a JSON body that is no object (a list,
  a string, a number, \<^verbatim>\<open>null\<close>). Such a request has no question, yet line 36 calls
  \<^verbatim>\<open>data.get\<close> on it outside every \<^verbatim>\<open>try\<close>: the \<^verbatim>\<open>AttributeError\<close> leaves the handler, no
  400 response is returned, and Flask answers with status 500, before and after the index
  is loaded.
\<close>

theorem list_body_raises_attribute_error:
  "answer_question_api demo_rag None None list_body_request = Inl (AttributeError ''get'')
   \<and> serve demo_rag (Serving None None) list_body_request =
       (Serving None None, Some (FrameworkErrorPage, 500))
   \<and> answer_question_api demo_rag (Some ()) (Some demo_docs) list_body_request =
       Inl (AttributeError ''get'')"
  by (simp add: answer_question_api_def serve_def list_body_request_def)

text \<open>
  C5, as amended. For every non-empty image payload: one that starts with \<^verbatim>\<open>http://\<close> or
  \<^verbatim>\<open>https://\<close> is handed on as it is; any other is handed on as a data URI
  \<^verbatim>\<open>data:<mime>;base64,<payload>\<close> whose MIME type is \<^verbatim>\<open>image/jpeg\<close>, \<^verbatim>\<open>image/png\<close>,
  \<^verbatim>\<open>image/webp\<close> for the three signatures and \<^verbatim>\<open>application/octet-stream\<close> otherwise; the
  data URI is never the payload itself, so exactly one of the two encodings is used.
\<close>

theorem image_reference_encoding:
  assumes "s \<noteq> []"
  shows "(prefix ''http://'' s \<or> prefix ''https://'' s \<longrightarrow>
            image_url_for_llm (Some s) = Some s
          \<and> (\<forall>mime. image_url_for_llm (Some s) \<noteq> Some (''data:'' @ mime @ '';base64,'' @ s)))
       \<and> (\<not> prefix ''http://'' s \<and> \<not> prefix ''https://'' s \<longrightarrow>
            image_url_for_llm (Some s) \<noteq> Some s
          \<and> (prefix ''/9j/'' s \<longrightarrow>
                image_url_for_llm (Some s) = Some (''data:image/jpeg;base64,'' @ s))
          \<and> (prefix ''iVBORw0KGgo'' s \<longrightarrow>
                image_url_for_llm (Some s) = Some (''data:image/png;base64,'' @ s))
          \<and> (prefix ''UklGR'' s \<longrightarrow>
                image_url_for_llm (Some s) = Some (''data:image/webp;base64,'' @ s))
          \<and> (\<not> prefix ''/9j/'' s \<and> \<not> prefix ''iVBORw0KGgo'' s \<and> \<not> prefix ''UklGR'' s \<longrightarrow>
                image_url_for_llm (Some s) =
                  Some (''data:application/octet-stream;base64,'' @ s)))"
proof -
  have longer: "''data:'' @ mime @ '';base64,'' @ s \<noteq> s" for mime
  proof
    assume "''data:'' @ mime @ '';base64,'' @ s = s"
    then have "length (''data:'' @ mime @ '';base64,'' @ s) = length s" by simp
    then show False by simp
  qed
  have url: "image_url_for_llm (Some s) = Some s"
    if "prefix ''http://'' s \<or> prefix ''https://'' s"
    using that assms by (simp add: image_url_for_llm_def Let_def)
  have data: "image_url_for_llm (Some s) =
      Some (''data:'' @
        (if prefix ''/9j/'' s then ''image/jpeg''
         else if prefix ''iVBORw0KGgo'' s then ''image/png''
         else if prefix ''UklGR'' s then ''image/webp''
         else ''application/octet-stream'') @ '';base64,'' @ s)"
    if "\<not> prefix ''http://'' s \<and> \<not> prefix ''https://'' s"
    using that assms by (simp add: image_url_for_llm_def Let_def)
  have jpeg_png: "\<not> (prefix ''/9j/'' s \<and> prefix ''iVBORw0KGgo'' s)"
    by (auto simp: prefix_def)
  have jpeg_webp: "\<not> (prefix ''/9j/'' s \<and> prefix ''UklGR'' s)"
    by (auto simp: prefix_def)
  have first: "prefix ''http://'' s \<or> prefix ''https://'' s \<longrightarrow>
      image_url_for_llm (Some s) = Some s
      \<and> (\<forall>mime. image_url_for_llm (Some s) \<noteq> Some (''data:'' @ mime @ '';base64,'' @ s))"
    using url longer by (metis option.inject)
  have second: "\<not> prefix ''http://'' s \<and> \<not> prefix ''https://'' s \<longrightarrow>
      image_url_for_llm (Some s) \<noteq> Some s"
    using data longer by (metis option.inject)
  have mimes: "\<not> prefix ''http://'' s \<and> \<not> prefix ''https://'' s \<longrightarrow>
      (prefix ''/9j/'' s \<longrightarrow>
          image_url_for_llm (Some s) = Some (''data:image/jpeg;base64,'' @ s))
      \<and> (prefix ''iVBORw0KGgo'' s \<longrightarrow>
          image_url_for_llm (Some s) = Some (''data:image/png;base64,'' @ s))
      \<and> (prefix ''UklGR'' s \<longrightarrow>
          image_url_for_llm (Some s) = Some (''data:image/webp;base64,'' @ s))
      \<and> (\<not> prefix ''/9j/'' s \<and> \<not> prefix ''iVBORw0KGgo'' s \<and> \<not> prefix ''UklGR'' s \<longrightarrow>
          image_url_for_llm (Some s) = Some (''data:application/octet-stream;base64,'' @ s))"
    using data jpeg_png jpeg_webp by (auto simp: prefix_def)
  from first second mimes show ?thesis by blast
qed

theorem image_reference_encoding_witness:
  "image_url_for_llm (Some ''https://example.com/x.jpg'') = Some ''https://example.com/x.jpg''
   \<and> image_url_for_llm (Some ''iVBORw0KGgoAAAA'') = Some ''data:image/png;base64,iVBORw0KGgoAAAA''
   \<and> image_url_for_llm (Some ''/9j/4AAQ'') = Some ''data:image/jpeg;base64,/9j/4AAQ''
   \<and> image_url_for_llm (Some ''UklGRiQA'') = Some ''data:image/webp;base64,UklGRiQA''
   \<and> image_url_for_llm (Some ''R0lGODlh'') = Some ''data:application/octet-stream;base64,R0lGODlh''"
  using image_reference_encoding [of "''https://example.com/x.jpg''"]
    image_reference_encoding [of "''iVBORw0KGgoAAAA''"]
    image_reference_encoding [of "''/9j/4AAQ''"]
    image_reference_encoding [of "''UklGRiQA''"]
    image_reference_encoding [of "''R0lGODlh''"]
  by simp

text \<open>
  C5 as stated fails at the empty payload: it does not start with \<^verbatim>\<open>http://\<close> or
  \<^verbatim>\<open>https://\<close>, and line 47 (\<^verbatim>\<open>if image_base64_data:\<close>) attaches nothing for it, neither a
  URL nor a data URI.
\<close>

theorem empty_image_not_attached:
  "\<not> prefix ''http://'' '''' \<and> \<not> prefix ''https://'' ''''
   \<and> image_url_for_llm (Some '''') = None
   \<and> image_url_for_llm (Some '''') \<noteq> Some (''data:application/octet-stream;base64,'' @ '''')"
  by (simp add: image_url_for_llm_def)

text \<open>
  C3, as amended. For a valid request on a loaded index, an exception raised by the
  embedding, by the retrieval, or by the prompt building or the model call gives status
  500, no links, and an answer that is a fixed sentence for the stage followed by the text
  of the exception (\<^verbatim>\<open>str(e)\<close>) and nothing else: no stack trace, but the exception's
  own message.
\<close>

theorem stage_errors_carry_exception_text:
  assumes "req_is_json req" and "req_question req = Some q" and "q \<noteq> []"
  shows "(get_embedding rag q = Inl e \<longrightarrow>
            answer_question_api rag (Some idx) (Some metadata) req =
              Inr (AnswerBody (''Error generating question embedding: '' @ e) [], 500))
       \<and> (get_embedding rag q = Inr v
            \<and> retrieve_and_prioritize_documents rag v idx metadata 750 5 = Inl e \<longrightarrow>
            answer_question_api rag (Some idx) (Some metadata) req =
              Inr (AnswerBody (''Error retrieving relevant information: '' @ e) [], 500))
       \<and> (get_embedding rag q = Inr v
            \<and> retrieve_and_prioritize_documents rag v idx metadata 750 5 = Inr docs
            \<and> docs \<noteq> []
            \<and> (build_prompt rag q docs (image_url_for_llm (req_image req)) = Inl e
               \<or> (\<exists>messages.
                    build_prompt rag q docs (image_url_for_llm (req_image req)) = Inr messages
                    \<and> query_chat_completion rag messages = Inl e)) \<longrightarrow>
            answer_question_api rag (Some idx) (Some metadata) req =
              Inr (AnswerBody (''Error communicating with AI model: '' @ e) [], 500))"
  using assms object_body [OF assms(2)] by (auto simp: answer_question_api_def)

theorem stage_errors_carry_exception_text_witness:
  "answer_question_api demo_rag_embedding_down (Some ()) (Some demo_docs) demo_request =
     Inr (AnswerBody
       (''Error generating question embedding: '' @ ''Connection refused: 10.0.0.5:8443'') [],
       500)
   \<and> answer_question_api demo_rag_retrieval_down (Some ()) (Some demo_docs) demo_request =
     Inr (AnswerBody
       (''Error retrieving relevant information: '' @ ''index dimension mismatch'') [], 500)
   \<and> answer_question_api demo_rag_model_down (Some ()) (Some demo_docs) demo_request =
     Inr (AnswerBody (''Error communicating with AI model: '' @ ''401 Unauthorized'') [], 500)"
  using stage_errors_carry_exception_text
      [where req = demo_request and q = "''What is FAISS?''"
         and rag = demo_rag_embedding_down and e = "''Connection refused: 10.0.0.5:8443''"
         and idx = "()" and metadata = demo_docs]
    stage_errors_carry_exception_text
      [where req = demo_request and q = "''What is FAISS?''"
         and rag = demo_rag_retrieval_down and e = "''index dimension mismatch''"
         and v = "[14]" and idx = "()" and metadata = demo_docs]
    stage_errors_carry_exception_text
      [where req = demo_request and q = "''What is FAISS?''"
         and rag = demo_rag_model_down and e = "''401 Unauthorized''"
         and v = "[14]" and idx = "()" and metadata = demo_docs and docs = demo_docs]
  by (simp add: demo_request_def demo_rag_def demo_docs_def demo_rag_embedding_down_def
        demo_rag_retrieval_down_def demo_rag_model_down_def req_question_def req_image_def)

text \<open>
  C3 as stated fails: when the embedding service raises an exception whose message names
  an internal address, that message is in the answer returned to the caller.
\<close>

theorem exception_text_exposed:
  "occurs_in ''Connection refused: 10.0.0.5:8443''
     (response_answer
        (answer_question_api demo_rag_embedding_down (Some ()) (Some demo_docs) demo_request))"
  by (simp add: answer_question_api_def demo_request_def demo_rag_def
        demo_rag_embedding_down_def response_answer_def)





lemma rsplit_space_head_last_space:
  assumes "CHR '' '' \<in> set s"
  shows "\<exists>p r. s = p @ CHR '' '' # r \<and> CHR '' '' \<notin> set r \<and> rsplit_space_head s = p"
proof -
  from assms obtain p r where s: "s = p @ CHR '' '' # r" and r: "CHR '' '' \<notin> set r"
    by (meson split_list_last)
  have "\<And>x. x \<in> set (rev r) \<Longrightarrow> x \<noteq> CHR '' ''"
    using r by auto
  then have "dropWhile (\<lambda>c. c \<noteq> CHR '' '') (rev r @ CHR '' '' # rev p) =
      dropWhile (\<lambda>c. c \<noteq> CHR '' '') (CHR '' '' # rev p)"
    by (rule dropWhile_append2)
  then have "dropWhile (\<lambda>c. c \<noteq> CHR '' '') (rev r @ CHR '' '' # rev p) = CHR '' '' # rev p"
    by simp
  then have "rsplit_space_head s = p"
    using assms by (simp add: rsplit_space_head_def s)
  with s r show ?thesis by blast
qed

lemma rsplit_space_head_no_space: "CHR '' '' \<notin> set s \<Longrightarrow> rsplit_space_head s = s"
  by (simp add: rsplit_space_head_def)

lemma fallback_loop_length:
  "fallback_loop clean ds acc = Inr ls \<Longrightarrow> length ls = length acc + length ds"
  by (induction ds arbitrary: acc) (auto simp: Let_def split: option.splits)

lemma fallback_loop_with_urls:
  "\<forall>d \<in> set ds. has_key ''url'' d \<Longrightarrow> \<exists>ls. fallback_loop clean ds acc = Inr ls"
proof (induction ds arbitrary: acc)
  case Nil
  then show ?case by simp
next
  case (Cons d ds)
  from Cons.prems have "has_key ''url'' d" by simp
  then obtain u where "map_of d ''url'' = Some u"
    by (metis has_key_def map_of_eq_None_iff not_Some_eq)
  with Cons show ?case by (simp add: Let_def)
qed

lemma set_dropWhile_subset: "set (dropWhile P xs) \<subseteq> set xs"
  by (auto dest: set_dropWhileD)

lemma strip_subset: "set (strip s) \<subseteq> set s"
proof -
  have "set (strip s) = set (dropWhile isspace (rev (dropWhile isspace s)))"
    by (simp add: strip_def)
  also have "\<dots> \<subseteq> set (rev (dropWhile isspace s))"
    by (rule set_dropWhile_subset)
  also have "\<dots> = set (dropWhile isspace s)"
    by simp
  also have "\<dots> \<subseteq> set s"
    by (rule set_dropWhile_subset)
  finally show ?thesis .
qed

lemma no_newline_after_replace: "CHR 0x0A \<notin> set (strip (replace_newlines a))"
proof -
  have "CHR 0x0A \<notin> set (replace_newlines a)"
    by (auto simp: replace_newlines_def)
  with strip_subset show ?thesis by blast
qed

lemma fallback_header_newline: "CHR 0x0A \<in> set fallback_header"
  by (simp add: fallback_header_def)

lemma strip_keeps_inner:
  assumes "x \<in> set s" and "\<not> isspace (last (s @ t))" and "t \<noteq> []"
    and "\<not> isspace (hd s)"
  shows "x \<in> set (strip (s @ t))"
proof -
  from assms(1) have s: "s \<noteq> []" by auto
  with assms(4) have front: "dropWhile isspace (s @ t) = s @ t"
    by (cases s) auto
  from assms(3) have "rev (s @ t) = last (s @ t) # rev (butlast (s @ t))"
    by (metis append_is_Nil_conv rev.simps(2) rev_rev_ident snoc_eq_iff_butlast)
  with assms(2) have "dropWhile isspace (rev (s @ t)) = rev (s @ t)"
    by simp
  with front have "strip (s @ t) = s @ t"
    by (simp add: strip_def)
  with assms(1) show ?thesis by simp
qed

lemma no_snippets_text_newline: "CHR 0x0A \<in> set (strip (fallback_answer_text []))"
proof -
  have "CHR 0x0A \<in> set (strip
      (fallback_header @ ''No relevant specific snippets found to cite.''))"
    by (rule strip_keeps_inner)
       (simp_all add: fallback_header_newline, simp_all add: fallback_header_def isspace_def)
  then show ?thesis by (simp add: fallback_answer_text_def)
qed


lemma fallback_loop_links:
  "fallback_loop clean ds acc = Inr out \<Longrightarrow>
     \<exists>ls. out = acc @ ls \<and> length ls = length ds
       \<and> (\<forall>i < length ds.
             map_of (ds ! i) ''url'' = Some (link_url (ls ! i))
           \<and> link_text (ls ! i) =
               snippet_of (clean (case map_of (ds ! i) ''content'' of
                                    None \<Rightarrow> [] | Some x \<Rightarrow> x)))"
proof (induction ds arbitrary: acc)
  case Nil
  then show ?case by simp
next
  case (Cons d ds)
  from Cons.prems obtain u where u: "map_of d ''url'' = Some u"
    by (cases "map_of d ''url''") (auto simp: Let_def)
  define l where "l = \<lparr>link_url = u,
    link_text = snippet_of (clean (case map_of d ''content'' of None \<Rightarrow> [] | Some x \<Rightarrow> x))\<rparr>"
  from Cons.prems u have "fallback_loop clean ds (acc @ [l]) = Inr out"
    by (simp add: Let_def l_def)
  from Cons.IH [OF this] obtain ls where out: "out = (acc @ [l]) @ ls"
    and len: "length ls = length ds"
    and each: "\<forall>i < length ds.
             map_of (ds ! i) ''url'' = Some (link_url (ls ! i))
           \<and> link_text (ls ! i) =
               snippet_of (clean (case map_of (ds ! i) ''content'' of
                                    None \<Rightarrow> [] | Some x \<Rightarrow> x))"
    by blast
  have "\<forall>i < length (d # ds).
             map_of ((d # ds) ! i) ''url'' = Some (link_url ((l # ls) ! i))
           \<and> link_text ((l # ls) ! i) =
               snippet_of (clean (case map_of ((d # ds) ! i) ''content'' of
                                    None \<Rightarrow> [] | Some x \<Rightarrow> x))"
  proof (intro allI impI)
    fix i assume "i < length (d # ds)"
    then show "map_of ((d # ds) ! i) ''url'' = Some (link_url ((l # ls) ! i))
           \<and> link_text ((l # ls) ! i) =
               snippet_of (clean (case map_of ((d # ds) ! i) ''content'' of
                                    None \<Rightarrow> [] | Some x \<Rightarrow> x))"
      using each u by (cases i) (simp_all add: l_def)
  qed
  moreover have "out = acc @ (l # ls)" using out by simp
  moreover have "length (l # ls) = length (d # ds)" using len by simp
  ultimately show ?case by blast
qed

text \<open>
  C2, as amended. The snippet of a cleaned content \<open>c\<close> of at most 150 characters is \<open>c\<close>.
  For a longer one it is a prefix \<open>p\<close> of \<open>c\<close>, of at most 150 characters, followed by
  \<^verbatim>\<open>...\<close>: when the first 150 characters hold a space, \<open>p\<close> is what stands before the
  last space among them (so \<open>p\<close> has fewer than 150 characters, a space follows it, and no
  space comes after that one within the first 150 characters); when they hold none, \<open>p\<close>
  is the first 150 characters, whatever follows. The snippet never has more than 153
  characters. Every link that the fallback loop adds, for any list of documents and any
  links collected before, has the \<^verbatim>\<open>url\<close> of its document and, as its text, this snippet
  of the cleaned content of its document; so has every link of a fallback response.
\<close>

theorem snippet_truncation:
  "(length c \<le> 150 \<longrightarrow> snippet_of c = c)
   \<and> (150 < length c \<longrightarrow>
        (\<exists>p. snippet_of c = p @ ''...'' \<and> prefix p c \<and> length p \<le> 150
           \<and> (CHR '' '' \<in> set (take 150 c) \<longrightarrow>
                 length p < 150
               \<and> c ! length p = CHR '' ''
               \<and> CHR '' '' \<notin> set (drop (Suc (length p)) (take 150 c))
               \<and> (\<exists>r. take 150 c = p @ CHR '' '' # r \<and> CHR '' '' \<notin> set r))
           \<and> (CHR '' '' \<notin> set (take 150 c) \<longrightarrow> p = take 150 c)))
   \<and> length (snippet_of c) \<le> 153
   \<and> (fallback_loop clean docs acc = Inr out \<longrightarrow>
        (\<exists>ls. out = acc @ ls \<and> length ls = length docs
           \<and> (\<forall>i < length docs.
                 map_of (docs ! i) ''url'' = Some (link_url (ls ! i))
               \<and> link_text (ls ! i) =
                   snippet_of (clean (case map_of (docs ! i) ''content'' of
                                        None \<Rightarrow> [] | Some x \<Rightarrow> x)))))
   \<and> (fallback_response clean docs = Inr (AnswerBody a links, st) \<longrightarrow>
        length links = min 2 (length docs)
      \<and> (\<forall>i < length links.
            map_of (docs ! i) ''url'' = Some (link_url (links ! i))
          \<and> link_text (links ! i) =
              snippet_of (clean (case map_of (docs ! i) ''content'' of
                                   None \<Rightarrow> [] | Some x \<Rightarrow> x))))"
proof -
  have short: "length c \<le> 150 \<longrightarrow> snippet_of c = c"
    by (simp add: snippet_of_def)
  have long: "\<exists>p. snippet_of c = p @ ''...'' \<and> prefix p c \<and> length p \<le> 150
           \<and> (CHR '' '' \<in> set (take 150 c) \<longrightarrow>
                 length p < 150
               \<and> c ! length p = CHR '' ''
               \<and> CHR '' '' \<notin> set (drop (Suc (length p)) (take 150 c))
               \<and> (\<exists>r. take 150 c = p @ CHR '' '' # r \<and> CHR '' '' \<notin> set r))
           \<and> (CHR '' '' \<notin> set (take 150 c) \<longrightarrow> p = take 150 c)"
    if len: "150 < length c"
  proof (cases "CHR '' '' \<in> set (take 150 c)")
    case True
    then obtain p r where t: "take 150 c = p @ CHR '' '' # r"
      and r: "CHR '' '' \<notin> set r" and h: "rsplit_space_head (take 150 c) = p"
      using rsplit_space_head_last_space by blast
    have "length (take 150 c) = 150" using len by simp
    with t have lp: "length p < 150" by simp
    have pre: "prefix p c"
      by (metis t prefix_def take_is_prefix prefix_order.order_trans)
    have "take 150 c ! length p = CHR '' ''" by (simp add: t)
    with lp have at: "c ! length p = CHR '' ''" by simp
    have rest: "drop (Suc (length p)) (take 150 c) = r" by (simp add: t)
    have "snippet_of c = p @ ''...''"
      using len h by (simp add: snippet_of_def)
    with pre lp at rest r t True show ?thesis by auto
  next
    case False
    then have "snippet_of c = take 150 c @ ''...''"
      using len by (simp add: snippet_of_def rsplit_space_head_no_space)
    with False show ?thesis
      by (intro exI [of _ "take 150 c"]) (simp add: take_is_prefix)
  qed
  have bound: "length (snippet_of c) \<le> 153"
  proof (cases "150 < length c")
    case True
    from long [OF True] obtain p where "snippet_of c = p @ ''...''" and "length p \<le> 150"
      by blast
    then show ?thesis by simp
  next
    case False
    then show ?thesis by (simp add: snippet_of_def)
  qed
  have loop: "fallback_loop clean docs acc = Inr out \<longrightarrow>
        (\<exists>ls. out = acc @ ls \<and> length ls = length docs
           \<and> (\<forall>i < length docs.
                 map_of (docs ! i) ''url'' = Some (link_url (ls ! i))
               \<and> link_text (ls ! i) =
                   snippet_of (clean (case map_of (docs ! i) ''content'' of
                                        None \<Rightarrow> [] | Some x \<Rightarrow> x))))"
    using fallback_loop_links by blast
  have resp: "length links = min 2 (length docs)
      \<and> (\<forall>i < length links.
            map_of (docs ! i) ''url'' = Some (link_url (links ! i))
          \<and> link_text (links ! i) =
              snippet_of (clean (case map_of (docs ! i) ''content'' of
                                   None \<Rightarrow> [] | Some x \<Rightarrow> x)))"
    if "fallback_response clean docs = Inr (AnswerBody a links, st)"
  proof -
    let ?first = "take (min 2 (length docs)) docs"
    from that have "fallback_loop clean ?first [] = Inr links"
      by (auto simp: fallback_response_def split: sum.splits)
    from fallback_loop_links [OF this]
    have len: "length links = length ?first"
      and each: "\<forall>i < length ?first.
             map_of (?first ! i) ''url'' = Some (link_url (links ! i))
           \<and> link_text (links ! i) =
               snippet_of (clean (case map_of (?first ! i) ''content'' of
                                    None \<Rightarrow> [] | Some x \<Rightarrow> x))"
      by auto
    from len have len': "length links = min 2 (length docs)" by simp
    have "?first ! i = docs ! i" if "i < length links" for i
      using that len' by simp
    with each len len' show ?thesis by simp
  qed
  from short long bound loop resp show ?thesis by blast
qed

theorem snippet_truncation_witness:
  "snippet_of ''short text'' = ''short text''
   \<and> (\<exists>p. snippet_of (replicate 148 (CHR ''a'') @ '' bcd'') = p @ ''...''
          \<and> prefix p (replicate 148 (CHR ''a'') @ '' bcd'') \<and> length p < 150
          \<and> (replicate 148 (CHR ''a'') @ '' bcd'') ! length p = CHR '' '')
   \<and> (\<exists>p. snippet_of (replicate 200 (CHR ''b'')) = p @ ''...''
          \<and> p = take 150 (replicate 200 (CHR ''b'')))
   \<and> (\<exists>ls. fallback_loop (\<lambda>content. content)
              [[(''url'', ''u''), (''content'', ''short text'')]] [] = Inr ls
          \<and> length ls = 1 \<and> link_text (ls ! 0) = snippet_of ''short text'')"
proof -
  let ?c = "replicate 148 (CHR ''a'') @ '' bcd''"
  let ?d = "replicate 200 (CHR ''b'')"
  let ?docs = "[[(''url'', ''u''), (''content'', ''short text'')]]"
  have short: "length ''short text'' \<le> 150" by simp
  have c_long: "150 < length ?c" by simp
  have c_space: "CHR '' '' \<in> set (take 150 ?c)" by simp
  have d_long: "150 < length ?d" by simp
  have d_space: "CHR '' '' \<notin> set (take 150 ?d)" by simp
  from snippet_truncation [of "''short text''"] short
  have a: "snippet_of ''short text'' = ''short text''" by blast
  from snippet_truncation [of ?c] c_long c_space
  have b: "\<exists>p. snippet_of ?c = p @ ''...'' \<and> prefix p ?c \<and> length p < 150
      \<and> ?c ! length p = CHR '' ''"
    by blast
  from snippet_truncation [of ?d] d_long d_space
  have c: "\<exists>p. snippet_of ?d = p @ ''...'' \<and> p = take 150 ?d" by blast
  have run: "fallback_loop (\<lambda>content. content) ?docs [] =
      Inr [\<lparr>link_url = ''u'', link_text = snippet_of ''short text''\<rparr>]"
    by simp
  note tie = snippet_truncation
    [where clean = "\<lambda>content. content" and docs = ?docs and acc = "[]"
       and out = "[\<lparr>link_url = ''u'', link_text = snippet_of ''short text''\<rparr>]",
     THEN conjunct2, THEN conjunct2, THEN conjunct2, THEN conjunct1, THEN mp, OF run]
  then obtain ls where ls: "[\<lparr>link_url = ''u'', link_text = snippet_of ''short text''\<rparr>] = ls"
    and len: "length ls = 1"
    by auto
  from run ls len have d: "\<exists>ls. fallback_loop (\<lambda>content. content) ?docs [] = Inr ls
          \<and> length ls = 1 \<and> link_text (ls ! 0) = snippet_of ''short text''"
    by auto
  from a b c d show ?thesis by blast
qed

text \<open>
  C2 as stated fails on a word of more than 150 characters: the first 150 characters hold
  no space, \<^verbatim>\<open>rsplit(' ', 1)[0]\<close> returns them whole, and the snippet ends inside the word.
\<close>

theorem snippet_splits_long_word:
  "snippet_of (replicate 151 (CHR ''a'')) = replicate 150 (CHR ''a'') @ ''...''
   \<and> splits_mid_word (replicate 151 (CHR ''a'')) (replicate 150 (CHR ''a''))"
proof -
  have more: "replicate 151 (CHR ''a'') = replicate 150 (CHR ''a'') @ [CHR ''a'']"
    using replicate_add [of 150 1 "CHR ''a''"] by simp
  have cut: "snippet_of (replicate 151 (CHR ''a'')) = replicate 150 (CHR ''a'') @ ''...''"
    by (simp add: snippet_of_def rsplit_space_head_def)
  have pre: "prefix (replicate 150 (CHR ''a'')) (replicate 151 (CHR ''a''))"
    unfolding more by simp
  have inside: "\<not> isspace (last (replicate 150 (CHR ''a'')))
      \<and> \<not> isspace (replicate 151 (CHR ''a'') ! length (replicate 150 (CHR ''a'')))"
    by (simp add: isspace_def)
  from cut pre inside show ?thesis
    by (simp add: splits_mid_word_def)
qed

lemma min_two_length_zero: "min 2 (length xs) = 0 \<longleftrightarrow> xs = []"
  by (cases xs) auto

lemma ok_without_links_one_line:
  assumes "answer_question_api rag rag_index rag_metadata req = Inr (AnswerBody a [], 200)"
  shows "CHR 0x0A \<notin> set a"
  using assms no_newline_after_replace
  by (auto simp: answer_question_api_def fallback_response_def min_two_length_zero
        split: if_splits option.splits sum.splits json_data.splits
        dest!: fallback_loop_length)

text \<open>
  C8. When the retrieved list is not empty and each of its documents has a \<^verbatim>\<open>url\<close>, the
  loop of the fallback path ends without exception with a non-empty \<^verbatim>\<open>fallback_links\<close>,
  so the answer text is built by the branch that lists the links and the response carries
  them. Whatever the request and the functions of \<^verbatim>\<open>rag.py\<close>, the handler never returns
  the text of the other branch (\<^verbatim>\<open>No relevant specific snippets found to cite.\<close>) with an
  empty link list.
\<close>

theorem fallback_links_nonempty:
  assumes "relevant_docs \<noteq> []" and "\<forall>d \<in> set relevant_docs. has_key ''url'' d"
  shows "(\<exists>ls. fallback_loop clean (take (min 2 (length relevant_docs)) relevant_docs) []
                = Inr ls
             \<and> ls \<noteq> []
             \<and> fallback_answer_text ls = fallback_header @ concat (map link_line ls)
             \<and> fallback_response clean relevant_docs =
                 Inr (AnswerBody (strip (fallback_header @ concat (map link_line ls))) ls,
                      200))
       \<and> answer_question_api rag rag_index rag_metadata req \<noteq>
           Inr (AnswerBody (strip (fallback_answer_text [])) [], 200)"
proof -
  let ?first = "take (min 2 (length relevant_docs)) relevant_docs"
  from assms(2) have "\<forall>d \<in> set ?first. has_key ''url'' d"
    by (meson in_set_takeD)
  then obtain ls where run: "fallback_loop clean ?first [] = Inr ls"
    using fallback_loop_with_urls by blast
  from fallback_loop_length [OF run] assms(1) have "length ls = min 2 (length relevant_docs)"
    by simp
  with assms(1) have ne: "ls \<noteq> []"
    by (cases relevant_docs) auto
  then have built: "fallback_answer_text ls = fallback_header @ concat (map link_line ls)"
    by (simp add: fallback_answer_text_def)
  have resp: "fallback_response clean relevant_docs =
      Inr (AnswerBody (strip (fallback_header @ concat (map link_line ls))) ls, 200)"
    by (simp add: fallback_response_def run built)
  have never: "answer_question_api rag rag_index rag_metadata req \<noteq>
      Inr (AnswerBody (strip (fallback_answer_text [])) [], 200)"
    using ok_without_links_one_line no_snippets_text_newline by blast
  from run ne built resp never show ?thesis by blast
qed

theorem fallback_links_nonempty_witness:
  "\<exists>ls. fallback_loop (\<lambda>content. content) (take (min 2 (length demo_docs)) demo_docs) []
          = Inr ls
       \<and> ls \<noteq> []
       \<and> fallback_answer_text ls = fallback_header @ concat (map link_line ls)"
proof -
  have "demo_docs \<noteq> []" and "\<forall>d \<in> set demo_docs. has_key ''url'' d"
    by (simp_all add: demo_docs_def has_key_def)
  from fallback_links_nonempty [OF this, of "\<lambda>content. content"]
  show ?thesis by blast
qed

lemma pad_links_grows: "length links \<le> length (pad_links snip links ds)"
proof (induction ds arbitrary: links)
  case Nil
  then show ?case by simp
next
  case (Cons d ds)
  have "length links \<le> length (pad_links snip (links @ [l]) ds)" for l
    using Cons.IH [of "links @ [l]"] by simp
  with Cons.IH [of links] show ?case
    by (auto split: option.splits)
qed

lemma pad_links_at_most_two:
  "length links \<le> 2 \<Longrightarrow> length (pad_links snip links ds) \<le> 2"
  by (induction ds arbitrary: links) (auto split: option.splits)

lemma pad_links_length:
  assumes "\<forall>d \<in> set ds. has_key ''url'' d"
    and "distinct (map (\<lambda>d. map_of d ''url'') ds)"
    and "length links \<le> 2"
  shows "length (pad_links snip links ds) =
           min 2 (length links
             + length (filter (\<lambda>d. map_of d ''url'' \<notin> Some ` link_url ` set links) ds))"
  using assms
proof (induction ds arbitrary: links)
  case Nil
  then show ?case by simp
next
  case (Cons d ds)
  from Cons.prems(1) have "has_key ''url'' d" by simp
  then obtain u where u: "map_of d ''url'' = Some u"
    by (metis has_key_def map_of_eq_None_iff not_Some_eq)
  from Cons.prems have rest: "\<forall>d \<in> set ds. has_key ''url'' d"
    "distinct (map (\<lambda>d. map_of d ''url'') ds)"
    by simp_all
  from Cons.prems(2) u have fresh: "\<forall>d' \<in> set ds. map_of d' ''url'' \<noteq> Some u"
    by (metis (mono_tags, lifting) distinct.simps(2) image_eqI list.simps(9) set_map)
  show ?case
  proof (cases "2 \<le> length links")
    case True
    with Cons.prems(3) show ?thesis by simp
  next
    case False
    show ?thesis
    proof (cases "u \<in> set (map link_url links)")
      case True
      then have "Some u \<in> Some ` link_url ` set links" by auto
      with False True u Cons.IH [OF rest Cons.prems(3)] show ?thesis
        by simp
    next
      case new: False
      let ?l = "\<lparr>link_url = u, link_text = snip d\<rparr>"
      from False have len': "length (links @ [?l]) \<le> 2" by simp
      have same: "filter (\<lambda>d. map_of d ''url'' \<notin> Some ` link_url ` set (links @ [?l])) ds
          = filter (\<lambda>d. map_of d ''url'' \<notin> Some ` link_url ` set links) ds"
        using fresh by (intro filter_cong) auto
      from new have out: "Some u \<notin> Some ` link_url ` set links" by auto
      from Cons.IH [OF rest len', unfolded same] False new u out show ?thesis
        by simp
    qed
  qed
qed

lemma distinct_filter_other:
  "distinct (map f ds) \<Longrightarrow> length ds \<le> Suc (length (filter (\<lambda>d. f d \<noteq> k) ds))"
proof (induction ds)
  case Nil
  then show ?case by simp
next
  case (Cons d ds)
  show ?case
  proof (cases "f d = k")
    case True
    with Cons.prems have "\<forall>d' \<in> set ds. f d' \<noteq> k" by (auto simp: image_iff)
    then have "filter (\<lambda>d. f d \<noteq> k) ds = ds" by simp
    with True show ?thesis by simp
  next
    case False
    with Cons show ?thesis by simp
  qed
qed

lemma enforce_links_at_most_two: "length (enforce_links snip links ds) \<le> 2"
  by (simp add: enforce_links_def pad_links_at_most_two)

lemma enforce_links_nonempty:
  assumes "ds \<noteq> []" and "\<forall>d \<in> set ds. has_key ''url'' d"
  shows "1 \<le> length (enforce_links snip links ds)"
proof (cases links)
  case Nil
  from assms obtain d rest where ds: "ds = d # rest" by (cases ds) auto
  with assms(2) have "has_key ''url'' d" by simp
  then obtain u where u: "map_of d ''url'' = Some u"
    by (metis has_key_def map_of_eq_None_iff not_Some_eq)
  have "1 \<le> length (pad_links snip [\<lparr>link_url = u, link_text = snip d\<rparr>] rest)"
    using pad_links_grows [of "[\<lparr>link_url = u, link_text = snip d\<rparr>]" snip rest] by simp
  with Nil ds u show ?thesis by (simp add: enforce_links_def)
next
  case (Cons l ls)
  then show ?thesis
    using pad_links_grows [of links snip ds] by (simp add: enforce_links_def)
qed

lemma enforce_links_two:
  assumes "2 \<le> length ds" and "\<forall>d \<in> set ds. has_key ''url'' d"
    and "distinct (map (\<lambda>d. map_of d ''url'') ds)"
  shows "length (enforce_links snip links ds) = 2"
proof (cases "2 < length links")
  case True
  then show ?thesis by (simp add: enforce_links_def)
next
  case False
  then have le: "length links \<le> 2" by simp
  let ?n = "length (filter (\<lambda>d. map_of d ''url'' \<notin> Some ` link_url ` set links) ds)"
  have enough: "2 \<le> length links + ?n"
  proof (cases links)
    case Nil
    with assms(1) show ?thesis by simp
  next
    case (Cons l ls)
    show ?thesis
    proof (cases ls)
      case Nil
      with Cons have "?n = length (filter (\<lambda>d. map_of d ''url'' \<noteq> Some (link_url l)) ds)"
        by simp
      with distinct_filter_other [OF assms(3), of "Some (link_url l)"] assms(1) Cons
      show ?thesis by simp
    next
      case (Cons l' ls')
      with \<open>links = l # ls\<close> show ?thesis by simp
    qed
  qed
  from pad_links_length [OF assms(2) assms(3) le, of snip] enough False
  show ?thesis by (simp add: enforce_links_def)
qed

lemma spec_clean_json_response_links:
  "spec_clean_json_response parse snip raw ds = Some ad \<Longrightarrow>
     (\<exists>links. ad_links ad = enforce_links snip links ds)
     \<and> (\<exists>a. ad_answer ad = Some a \<and> a \<noteq> [])"
  by (auto simp: spec_clean_json_response_def split: option.splits if_splits)

text \<open>
  C1, as amended. For a valid request on a loaded index whose retrieval returned at least
  one document, a response with status 200 is an answer body, the prompt building and the
  model call having succeeded. On the fallback path (\<^verbatim>\<open>clean_json_response\<close> gave nothing
  or no non-empty answer) its links are as many as the smaller of 2 and the number of
  retrieved documents: two with two or more documents, one with a single document. With
  \<^verbatim>\<open>clean_json_response\<close> as the specification words it, the response never has more than
  two links, has at least one when every retrieved document has a \<^verbatim>\<open>url\<close>, and has
  exactly two, however many links the model output held, when at least two documents
  with pairwise different URLs were retrieved.
\<close>

theorem links_of_success_response:
  assumes "req_is_json req" and "req_question req = Some q" and "q \<noteq> []"
    and "get_embedding rag q = Inr v"
    and "retrieve_and_prioritize_documents rag v idx metadata 750 5 = Inr docs"
    and "docs \<noteq> []"
    and "answer_question_api rag (Some idx) (Some metadata) req = Inr (body, 200)"
  shows "\<exists>messages raw a ls.
           build_prompt rag q docs (image_url_for_llm (req_image req)) = Inr messages
         \<and> query_chat_completion rag messages = Inr raw
         \<and> body = AnswerBody a ls
         \<and> (clean_json_response rag raw docs = None
            \<or> (\<exists>answer_data. clean_json_response rag raw docs = Some answer_data
                 \<and> (ad_answer answer_data = None \<or> ad_answer answer_data = Some [])) \<longrightarrow>
              length ls = min 2 (length docs))
         \<and> (clean_json_response rag = spec_clean_json_response parse snip \<longrightarrow>
              length ls \<le> 2
            \<and> ((\<forall>d \<in> set docs. has_key ''url'' d) \<longrightarrow> 1 \<le> length ls)
            \<and> ((\<forall>d \<in> set docs. has_key ''url'' d) \<and> 2 \<le> length docs
                \<and> distinct (map (\<lambda>d. map_of d ''url'') docs) \<longrightarrow>
                 length ls = 2))"
proof -
  note obj = object_body [OF assms(2)]
  from assms obj obtain messages where
    bp: "build_prompt rag q docs (image_url_for_llm (req_image req)) = Inr messages"
    by (cases "build_prompt rag q docs (image_url_for_llm (req_image req))")
       (auto simp: answer_question_api_def)
  from assms obj bp obtain raw where qc: "query_chat_completion rag messages = Inr raw"
    by (cases "query_chat_completion rag messages") (auto simp: answer_question_api_def)
  have fb: "\<exists>a ls. body = AnswerBody a ls \<and> length ls = min 2 (length docs)"
    if "fallback_response (clean_content_for_prompt rag) docs = Inr (body, 200)"
    using that
    by (auto simp: fallback_response_def split: sum.splits dest!: fallback_loop_length)
  have from_min: "length ls \<le> 2 \<and> 1 \<le> length ls \<and> (2 \<le> length docs \<longrightarrow> length ls = 2)"
    if "length ls = min 2 (length docs)" for ls :: "link list"
    using that assms(6) by (cases docs) auto
  let ?fallback = "clean_json_response rag raw docs = None
      \<or> (\<exists>answer_data. clean_json_response rag raw docs = Some answer_data
           \<and> (ad_answer answer_data = None \<or> ad_answer answer_data = Some []))"
  show ?thesis
  proof (cases ?fallback)
    case True
    with assms obj bp qc
    have "fallback_response (clean_content_for_prompt rag) docs = Inr (body, 200)"
      by (auto simp: answer_question_api_def)
    from fb [OF this] obtain a ls where body: "body = AnswerBody a ls"
      and len: "length ls = min 2 (length docs)"
      by blast
    from from_min [OF len] bp qc body len show ?thesis by blast
  next
    case False
    then obtain ad a where ad: "clean_json_response rag raw docs = Some ad"
      and a: "ad_answer ad = Some a" "a \<noteq> []"
      by (cases "clean_json_response rag raw docs") auto
    with assms obj bp qc
    have body: "body = AnswerBody (strip (replace_newlines a)) (ad_links ad)"
      by (simp add: answer_question_api_def)
    have spec: "length (ad_links ad) \<le> 2
        \<and> ((\<forall>d \<in> set docs. has_key ''url'' d) \<longrightarrow> 1 \<le> length (ad_links ad))
        \<and> ((\<forall>d \<in> set docs. has_key ''url'' d) \<and> 2 \<le> length docs
            \<and> distinct (map (\<lambda>d. map_of d ''url'') docs) \<longrightarrow>
             length (ad_links ad) = 2)"
      if "clean_json_response rag = spec_clean_json_response parse snip"
    proof -
      from that ad have "spec_clean_json_response parse snip raw docs = Some ad" by simp
      then obtain links where "ad_links ad = enforce_links snip links docs"
        using spec_clean_json_response_links by blast
      then show ?thesis
        using enforce_links_at_most_two enforce_links_nonempty [OF assms(6)] enforce_links_two
        by metis
    qed
    from bp qc body False spec show ?thesis by blast
  qed
qed

theorem links_of_success_response_witness:
  "length (response_links
     (answer_question_api demo_rag_parsed (Some ()) (Some demo_docs) demo_request)) = 2
   \<and> length (response_links
     (answer_question_api demo_rag (Some ()) (Some demo_docs) demo_request)) = 2"
proof -
  let ?snip = "\<lambda>doc. snippet_of (case map_of doc ''content'' of None \<Rightarrow> [] | Some c \<Rightarrow> c)"
  let ?parse = "\<lambda>raw :: string. Some \<lparr>ad_answer = Some ''FAISS is a similarity search library.'',
                        ad_links = []\<rparr>"
  have valid: "req_is_json demo_request" "req_question demo_request = Some ''What is FAISS?''"
      "''What is FAISS?'' \<noteq> []"
    by (simp_all add: demo_request_def req_question_def)
  have ne: "demo_docs \<noteq> []"
    by (simp add: demo_docs_def)
  have urls: "\<forall>d \<in> set demo_docs. has_key ''url'' d"
    by (simp add: demo_docs_def has_key_def)
  have two: "2 \<le> length demo_docs"
    by (simp add: demo_docs_def)
  have dist: "distinct (map (\<lambda>d. map_of d ''url'') demo_docs)"
    by (simp add: demo_docs_def)
  have parsed: "length (response_links
     (answer_question_api demo_rag_parsed (Some ()) (Some demo_docs) demo_request)) = 2"
  proof -
    have emb: "get_embedding demo_rag_parsed ''What is FAISS?'' = Inr [14]"
      by (simp add: demo_rag_parsed_def demo_rag_def)
    have retr: "retrieve_and_prioritize_documents demo_rag_parsed [14] () demo_docs 750 5
        = Inr demo_docs"
      by (simp add: demo_rag_parsed_def demo_rag_def demo_docs_def)
    have spec: "clean_json_response demo_rag_parsed = spec_clean_json_response ?parse ?snip"
      by (simp add: demo_rag_parsed_def)
    obtain body where run:
      "answer_question_api demo_rag_parsed (Some ()) (Some demo_docs) demo_request
         = Inr (body, 200)"
      by (simp add: answer_question_api_def demo_rag_parsed_def demo_rag_def demo_docs_def
            demo_request_def spec_clean_json_response_def)
    from links_of_success_response [OF valid emb retr ne run, of ?parse ?snip]
      spec urls two dist
    obtain a ls where "body = AnswerBody a ls" and "length ls = 2"
      by blast
    with run show ?thesis by (simp add: response_links_def)
  qed
  have fallback: "length (response_links
     (answer_question_api demo_rag (Some ()) (Some demo_docs) demo_request)) = 2"
  proof -
    have emb: "get_embedding demo_rag ''What is FAISS?'' = Inr [14]"
      by (simp add: demo_rag_def)
    have retr: "retrieve_and_prioritize_documents demo_rag [14] () demo_docs 750 5
        = Inr demo_docs"
      by (simp add: demo_rag_def demo_docs_def)
    obtain body where run:
      "answer_question_api demo_rag (Some ()) (Some demo_docs) demo_request = Inr (body, 200)"
      by (simp add: answer_question_api_def fallback_response_def demo_rag_def demo_docs_def
            demo_request_def Let_def)
    from links_of_success_response [OF valid emb retr ne run, of ?parse ?snip]
    obtain a ls where body: "body = AnswerBody a ls"
      and "length ls = min 2 (length demo_docs)"
      by (auto simp: demo_rag_def)
    then have "length ls = 2" by (simp add: demo_docs_def)
    with run body show ?thesis by (simp add: response_links_def)
  qed
  from parsed fallback show ?thesis by simp
qed

text \<open>
  C1 as stated fails when the retrieval returns a single document and the model output is
  unusable: the response has status 200 and one link.
\<close>

theorem single_document_fallback_has_one_link:
  "response_status
     (answer_question_api demo_rag (Some ())
        (Some [[(''url'', ''https://example.com/a''), (''content'', ''alpha'')]])
        demo_request) = Some 200
   \<and> length (response_links
       (answer_question_api demo_rag (Some ())
          (Some [[(''url'', ''https://example.com/a''), (''content'', ''alpha'')]])
          demo_request)) = 1
   \<and> length (response_links
       (answer_question_api demo_rag (Some ())
          (Some [[(''url'', ''https://example.com/a''), (''content'', ''alpha'')]])
          demo_request)) \<noteq> 2"
  by (simp add: answer_question_api_def fallback_response_def demo_rag_def
        demo_request_def response_status_def response_links_def Let_def)

end
